theory Spec2Isabelle
  imports Main "HOL-Library.Word" "HOL-Library.Multiset"
begin

section \<open>Shed Skin runtime: list, bytes and the CSV writer\<close>

text \<open>
  The development follows \<^verbatim>\<open>shedskin/lib/builtin/list.hpp\<close> (the list template),
  the bytes methods (constructors, \<^verbatim>\<open>__repr__\<close>, \<^verbatim>\<open>__hash__\<close>, \<^verbatim>\<open>__eq__\<close>,
  \<^verbatim>\<open>__add__\<close>, \<^verbatim>\<open>__iadd__\<close>) and \<^verbatim>\<open>shedskin/lib/csv.hpp\<close>.

  Conventions of the embedding.
  \<^item> \<^verbatim>\<open>__ss_int\<close> is a two's-complement integer of \<open>W\<close> bits. Its typedef is not part
    of the sources at hand, so the width \<open>W\<close> is a parameter of the slice methods;
    \<^verbatim>\<open>int\<close> has 32 bits. The values are HOL integers. Signed overflow is undefined in
    C++; where the slice code adds to a loop variable, takes an absolute value or narrows
    to \<^verbatim>\<open>int\<close>, the model gives the result the two's-complement value of that width.
    The remaining index arithmetic (an index or an endpoint offset by the length, the
    difference of two positions of the list) cannot leave the range and is read on
    mathematical integers.
  \<^item> \<^verbatim>\<open>units\<close> (a \<^verbatim>\<open>std::vector\<close>) is a HOL list. A method that mutates the receiver
    returns the exception raised, if any, together with the contents of \<^verbatim>\<open>units\<close> at
    that moment; a method that only reads returns a sum. \<^verbatim>\<open>__setslice__\<close> is handed a
    pointer to a second list, which may be the receiver itself: it is modelled over a
    store of lists.
  \<^item> An access outside a vector is undefined behaviour in C++; the model makes it the
    value \<open>OutOfBounds\<close>, so that every index the code uses is checked. \<open>Undefined\<close> is
    the other undefined behaviour the slice code can reach: an integer division that
    traps, and the insertion of a range of a vector into that vector.
\<close>

subsection \<open>Exceptions\<close>

datatype piece = Lit string | Num int

datatype error =
    ValueError "piece list"
  | IndexError "piece list"
  | CsvError string
  | StopIteration
  | OutOfBounds
  | LengthError
  | Diverges
  | Undefined

subsection \<open>Machine integers\<close>





definition c_rem :: "int \<Rightarrow> int \<Rightarrow> int" where
  "c_rem a b = sgn a * (\<bar>a\<bar> mod \<bar>b\<bar>)"

subsection \<open>Index and slice normalisation\<close>

text \<open>
  Modelled from the spec: \<^verbatim>\<open>__wrap\<close> is called by \<^verbatim>\<open>__getitem__\<close>,
  \<^verbatim>\<open>__setitem__\<close>, \<^verbatim>\<open>__delitem__\<close> but is defined outside the sources at hand. The
  specification: a negative index is offset by the length once; an index still outside
  \<open>[0, length)\<close> is an IndexError.
\<close>

definition wrap :: "int \<Rightarrow> int \<Rightarrow> error + int" where
  "wrap len i =
     (let i' = (if i < 0 then i + len else i)
      in if i' < 0 \<or> len \<le> i' then Inl (IndexError [Lit ''index out of range''])
         else Inr i')"

definition clamp :: "int \<Rightarrow> int \<Rightarrow> int \<Rightarrow> int" where
  "clamp lo hi v = (if v < lo then lo else if hi < v then hi else v)"

text \<open>
  Modelled from the spec: \<^verbatim>\<open>slicenr(x, l, u, s, len)\<close> is called by every slice
  operation of the list but is defined outside the sources at hand. \<open>x\<close> is the mask of
  the slice parameters that were written (1: start, 2: stop, 4: step; the list code tests
  \<^verbatim>\<open>x&4\<close> as "step is given" and \<^verbatim>\<open>index\<close> passes 7). The specification: a zero
  step is an error; negative endpoints are offset by the length, then clamped into
  \<open>[0, length]\<close> for a positive step and into \<open>[-1, length - 1]\<close> for a negative one; an
  endpoint that was not written is the corresponding end of the walk, a step that was not
  written is 1.
\<close>

definition slicenr :: "nat \<Rightarrow> int \<Rightarrow> int \<Rightarrow> int \<Rightarrow> int \<Rightarrow> error + (int \<times> int \<times> int)" where
  "slicenr x l u s len =
     (if bit x 2 \<and> s = 0 then Inl (ValueError [Lit ''slice step cannot be zero''])
      else
        let s' = (if bit x 2 then s else 1);
            l1 = (if l < 0 then l + len else l);
            u1 = (if u < 0 then u + len else u)
        in if 0 < s'
           then Inr (if bit x 0 then clamp 0 len l1 else 0,
                     if bit x 1 then clamp 0 len u1 else len, s')
           else Inr (if bit x 0 then clamp (- 1) (len - 1) l1 else len - 1,
                     if bit x 1 then clamp (- 1) (len - 1) u1 else - 1, s'))"

subsection \<open>The list methods\<close>

text \<open>\<^verbatim>\<open>list<T>::__len__\<close>.\<close>

definition list_len :: "'a list \<Rightarrow> int" where
  "list_len units = int (length units)"

text \<open>\<^verbatim>\<open>list<T>::__getitem__\<close>: wrap, then read.\<close>

definition list_getitem :: "'a list \<Rightarrow> int \<Rightarrow> error + 'a" where
  "list_getitem units i =
     (case wrap (list_len units) i of
        Inl e \<Rightarrow> Inl e
      | Inr j \<Rightarrow> if 0 \<le> j \<and> j < list_len units then Inr (units ! nat j) else Inl OutOfBounds)"

text \<open>\<^verbatim>\<open>list<T>::__setitem__\<close>: wrap, then write.\<close>

definition list_setitem :: "'a list \<Rightarrow> int \<Rightarrow> 'a \<Rightarrow> error option \<times> 'a list" where
  "list_setitem units i e =
     (case wrap (list_len units) i of
        Inl err \<Rightarrow> (Some err, units)
      | Inr j \<Rightarrow> if 0 \<le> j \<and> j < list_len units then (None, units[nat j := e])
                 else (Some OutOfBounds, units))"









text \<open>
  \<^verbatim>\<open>std::vector::erase(begin + a, begin + b)\<close> and
  \<^verbatim>\<open>std::vector::insert(begin + l, first, last)\<close>: the iterators must lie inside the
  vector, and the erased range must not be reversed.
\<close>

definition erase :: "'a list \<Rightarrow> int \<Rightarrow> int \<Rightarrow> error option \<times> 'a list" where
  "erase units a b =
     (if 0 \<le> a \<and> a \<le> b \<and> b \<le> int (length units)
      then (None, take (nat a) units @ drop (nat b) units)
      else (Some OutOfBounds, units))"












text \<open>
  \<^verbatim>\<open>list<T>::__delslice__\<close> and \<^verbatim>\<open>list<T>::__delete__\<close> (the slice overload).
  \<open>c_rem\<close> is C's \<^verbatim>\<open>%\<close>, which truncates towards zero; it is applied to a step that
  \<open>slicenr\<close> never returns as zero.
\<close>

definition list_delslice :: "'a list \<Rightarrow> int \<Rightarrow> int \<Rightarrow> error option \<times> 'a list" where
  "list_delslice units a b =
     (if list_len units < a then (None, units)
      else erase units a (if list_len units < b then list_len units else b))"

function delete_loop :: "'a list \<Rightarrow> int \<Rightarrow> int \<Rightarrow> int \<Rightarrow> nat \<Rightarrow> 'a list \<Rightarrow> 'a list" where
  "delete_loop units l u s i v =
     (if i < length units
      then delete_loop units l u s (Suc i)
             (if int i < l \<or> u \<le> int i \<or> c_rem (int i - l) s \<noteq> 0
              then v @ [units ! i] else v)
      else v)"
  by pat_completeness auto
termination
  by (relation "measure (\<lambda>(units, l, u, s, i, v). length units - i)") auto

declare delete_loop.simps [simp del]

definition list_delete :: "'a list \<Rightarrow> nat \<Rightarrow> int \<Rightarrow> int \<Rightarrow> int \<Rightarrow> error option \<times> 'a list" where
  "list_delete units x l u s =
     (case slicenr x l u s (list_len units) of
        Inl e \<Rightarrow> (Some e, units)
      | Inr (l', u', s') \<Rightarrow>
          if s' = 1 then list_delslice units l' u'
          else (None, delete_loop units l' u' s' 0 []))"

text \<open>
  The stride walk in the words of the specification: a positive step walks upward from
  start while the position is below stop, a negative step walks downward while it is above
  stop. \<open>stride_walk\<close> lists the positions in the order they are visited.
\<close>

function walk_up :: "int \<Rightarrow> int \<Rightarrow> int \<Rightarrow> int list" where
  "walk_up i u s = (if i < u \<and> 0 < s then i # walk_up (i + s) u s else [])"
  by pat_completeness auto
termination
  by (relation "measure (\<lambda>(i, u, s). nat (u - i))") auto

declare walk_up.simps [simp del]

function walk_down :: "int \<Rightarrow> int \<Rightarrow> int \<Rightarrow> int list" where
  "walk_down i u s = (if u < i \<and> s < 0 then i # walk_down (i + s) u s else [])"
  by pat_completeness auto
termination
  by (relation "measure (\<lambda>(i, u, s). nat (i - u))") auto

declare walk_down.simps [simp del]

definition stride_walk :: "int \<Rightarrow> int \<Rightarrow> int \<Rightarrow> int list" where
  "stride_walk l u s = (if 0 < s then walk_up l u s else walk_down l u s)"


text \<open>
  Overwriting in stride order: the positions \<open>ps\<close> receive the values \<open>vs\<close>, first
  position first.
\<close>

definition overwrite :: "'a list \<Rightarrow> int list \<Rightarrow> 'a list \<Rightarrow> 'a list" where
  "overwrite units ps vs = fold (\<lambda>(p, v) us. us[nat p := v]) (zip ps vs) units"

subsection \<open>The bytes methods\<close>

text \<open>
  A \<^verbatim>\<open>bytes\<close> object holds the buffer \<^verbatim>\<open>unit\<close> (a string of 8-bit characters, NUL
  included), the memoized \<^verbatim>\<open>hash\<close> (a \<^verbatim>\<open>long\<close>, read here as a 64-bit word; the
  sentinel \<open>- 1\<close> marks a hash not computed yet) and the flag \<^verbatim>\<open>frozen\<close>.
\<close>

record bytes =
  unit :: string
  hash :: "64 word"
  frozen :: int

abbreviation NUL :: char where "NUL \<equiv> CHR 0x00"

text \<open>
  A \<^verbatim>\<open>const char *\<close> read as a C string ends at its first NUL; \<^verbatim>\<open>unit.c_str()\<close>
  handed to a \<^verbatim>\<open>std::string\<close> constructor keeps the characters before it.
\<close>

definition c_str :: "string \<Rightarrow> string" where
  "c_str s = takeWhile (\<lambda>c. c \<noteq> NUL) s"

text \<open>
  The constructors. \<^verbatim>\<open>bytes(int frozen)\<close>, \<^verbatim>\<open>bytes(__GC_STRING s)\<close>,
  \<^verbatim>\<open>bytes(bytes *b, int frozen)\<close>; each sets \<^verbatim>\<open>hash\<close> to the sentinel. The
  constructor from a string leaves \<^verbatim>\<open>frozen\<close> uninitialised: \<open>fz\<close> is the value it
  happens to hold.
\<close>

definition bytes_new :: "int \<Rightarrow> bytes" where
  "bytes_new fz = \<lparr>unit = [], hash = - 1, frozen = fz\<rparr>"

definition bytes_of_string :: "int \<Rightarrow> string \<Rightarrow> bytes" where
  "bytes_of_string fz s = \<lparr>unit = s, hash = - 1, frozen = fz\<rparr>"

definition bytes_copy :: "bytes \<Rightarrow> int \<Rightarrow> bytes" where
  "bytes_copy b fz = \<lparr>unit = unit b, hash = - 1, frozen = fz\<rparr>"











text \<open>
  \<^verbatim>\<open>bytes::__hash__\<close>. \<open>H\<close> is \<^verbatim>\<open>std::hash<std::string>\<close>, a function of the
  string it is given; the argument is \<^verbatim>\<open>unit.c_str()\<close>. The method returns the hash and
  leaves it in the object.
\<close>

definition bytes_hash :: "(string \<Rightarrow> 64 word) \<Rightarrow> bytes \<Rightarrow> 64 word \<times> bytes" where
  "bytes_hash H b =
     (if hash b \<noteq> - 1 then (hash b, b)
      else let b' = b\<lparr>hash := H (c_str (unit b))\<rparr> in (hash b', b'))"


text \<open>
  The hash field of an object is either the sentinel or the hash of its buffer: the
  constructors set the former, \<^verbatim>\<open>__hash__\<close> is the only method that writes the field.
\<close>

definition hash_inv :: "(string \<Rightarrow> 64 word) \<Rightarrow> bytes \<Rightarrow> bool" where
  "hash_inv H b = (hash b = - 1 \<or> hash b = H (c_str (unit b)))"




subsection \<open>Sorting\<close>

text \<open>
  \<^verbatim>\<open>list<T>::sort\<close> hands the vector to \<^verbatim>\<open>std::sort\<close> with one of six comparators.
  \<^verbatim>\<open>std::sort(first, last, comp)\<close> is the library's unstable sort: the C++ standard
  promises a permutation of the range in which no element is ordered by \<^verbatim>\<open>comp\<close> (here \<open>before\<close>) before an
  element that precedes it, and leaves the order of equivalent elements open. The model is
  that contract, as a relation between the vector before and after the call.
\<close>

definition std_sort :: "('a \<Rightarrow> 'a \<Rightarrow> bool) \<Rightarrow> 'a list \<Rightarrow> 'a list \<Rightarrow> bool" where
  "std_sort before xs ys \<longleftrightarrow> mset ys = mset xs \<and> sorted_wrt (\<lambda>a b. \<not> before b a) ys"

text \<open>
  Modelled from the spec: the comparators \<^verbatim>\<open>cpp_cmp\<close>, \<^verbatim>\<open>cpp_cmp_rev\<close>,
  \<^verbatim>\<open>cpp_cmp_custom\<close>, \<^verbatim>\<open>cpp_cmp_custom_rev\<close>, \<^verbatim>\<open>cpp_cmp_key\<close> and
  \<^verbatim>\<open>cpp_cmp_key_rev\<close> are named by \<^verbatim>\<open>list<T>::sort\<close> and defined outside the sources
  at hand. The specification: without key and comparator the natural order of the elements
  is used; a key is applied to each element and the keys are compared in their natural
  order; a comparator is applied to the raw elements (a negative result orders its first
  argument first); \<^verbatim>\<open>reverse\<close> flips the ordering.
\<close>

definition cpp_cmp :: "'a::linorder \<Rightarrow> 'a \<Rightarrow> bool" where
  "cpp_cmp a b \<longleftrightarrow> a < b"

definition cpp_cmp_rev :: "'a::linorder \<Rightarrow> 'a \<Rightarrow> bool" where
  "cpp_cmp_rev a b \<longleftrightarrow> b < a"

definition cpp_cmp_custom :: "('a \<Rightarrow> 'a \<Rightarrow> int) \<Rightarrow> 'a \<Rightarrow> 'a \<Rightarrow> bool" where
  "cpp_cmp_custom cmp a b \<longleftrightarrow> cmp a b < 0"

definition cpp_cmp_custom_rev :: "('a \<Rightarrow> 'a \<Rightarrow> int) \<Rightarrow> 'a \<Rightarrow> 'a \<Rightarrow> bool" where
  "cpp_cmp_custom_rev cmp a b \<longleftrightarrow> 0 < cmp a b"

definition cpp_cmp_key :: "('a \<Rightarrow> 'k::linorder) \<Rightarrow> 'a \<Rightarrow> 'a \<Rightarrow> bool" where
  "cpp_cmp_key key a b \<longleftrightarrow> key a < key b"

definition cpp_cmp_key_rev :: "('a \<Rightarrow> 'k::linorder) \<Rightarrow> 'a \<Rightarrow> 'a \<Rightarrow> bool" where
  "cpp_cmp_key_rev key a b \<longleftrightarrow> key b < key a"

text \<open>
  \<^verbatim>\<open>list<T>::sort(cmp, key, reverse)\<close>: a null function pointer is \<open>None\<close>, and
  \<^verbatim>\<open>reverse\<close> is an integer tested against zero. \<open>list_sort cmp key reverse units units'\<close>
  holds when \<open>units'\<close> is a content the call may leave in \<^verbatim>\<open>units\<close>.
\<close>

definition list_sort ::
  "('a::linorder \<Rightarrow> 'a \<Rightarrow> int) option \<Rightarrow> ('a \<Rightarrow> 'k::linorder) option \<Rightarrow> int
     \<Rightarrow> 'a list \<Rightarrow> 'a list \<Rightarrow> bool" where
  "list_sort cmp key reverse units units' =
     (case key of
        Some k \<Rightarrow>
          if reverse \<noteq> 0 then std_sort (cpp_cmp_key_rev k) units units'
          else std_sort (cpp_cmp_key k) units units'
      | None \<Rightarrow>
          (case cmp of
             Some c \<Rightarrow>
               if reverse \<noteq> 0 then std_sort (cpp_cmp_custom_rev c) units units'
               else std_sort (cpp_cmp_custom c) units units'
           | None \<Rightarrow>
               if reverse \<noteq> 0 then std_sort cpp_cmp_rev units units'
               else std_sort cpp_cmp units units'))"

text \<open>
  Stability in the words of the specification: the elements of one key keep their original
  relative order. The keys that matter are those of the list itself.
\<close>

definition stable_by :: "('a \<Rightarrow> 'k) \<Rightarrow> 'a list \<Rightarrow> 'a list \<Rightarrow> bool" where
  "stable_by key xs ys =
     list_all (\<lambda>v. filter (\<lambda>x. key x = v) ys = filter (\<lambda>x. key x = v) xs) (map key xs)"

subsection \<open>The CSV dialect, writer and reader\<close>






























section \<open>Properties of the list\<close>

subsection \<open>Item access\<close>



text \<open>
  C4. For an index \<open>i\<close> that is in range after normalisation (\<open>i\<close> in \<open>[0, n)\<close>, or
  \<open>i\<close> negative with \<open>i + n\<close> in \<open>[0, n)\<close>), \<^verbatim>\<open>__setitem__(i, v)\<close> raises nothing and
  \<^verbatim>\<open>__getitem__(i)\<close> on the updated list returns \<open>v\<close>; for a negative \<open>i\<close> both
  methods behave as they do at \<open>i + n\<close>.
\<close>

theorem getitem_after_setitem:
  assumes "(0 \<le> i \<and> i < list_len units) \<or> (i < 0 \<and> 0 \<le> i + list_len units)"
  shows "fst (list_setitem units i v) = None
       \<and> list_getitem (snd (list_setitem units i v)) i = Inr v
       \<and> (i < 0 \<longrightarrow> list_getitem units i = list_getitem units (i + list_len units)
                 \<and> list_setitem units i v = list_setitem units (i + list_len units) v)"
  using assms by (auto simp: list_setitem_def list_getitem_def wrap_def list_len_def Let_def)

theorem getitem_after_setitem_witness:
  "((0 \<le> (- 2 :: int) \<and> - 2 < list_len [10, 20, 30 :: int])
      \<or> ((- 2 :: int) < 0 \<and> 0 \<le> - 2 + list_len [10, 20, 30 :: int]))
   \<and> fst (list_setitem [10, 20, 30 :: int] (- 2) 7) = None
   \<and> list_getitem (snd (list_setitem [10, 20, 30 :: int] (- 2) 7)) (- 2) = Inr 7
   \<and> list_getitem [10, 20, 30 :: int] (- 2)
       = list_getitem [10, 20, 30] (- 2 + list_len [10, 20, 30 :: int])
   \<and> list_setitem [10, 20, 30 :: int] (- 2) 7
       = list_setitem [10, 20, 30] (- 2 + list_len [10, 20, 30 :: int]) 7"
proof -
  have h: "(0 \<le> (- 2 :: int) \<and> - 2 < list_len [10, 20, 30 :: int])
      \<or> ((- 2 :: int) < 0 \<and> 0 \<le> - 2 + list_len [10, 20, 30 :: int])"
    by (simp add: list_len_def)
  have neg: "(- 2 :: int) < 0" by simp
  note t = getitem_after_setitem [OF h, of 7]
  from t have a: "fst (list_setitem [10, 20, 30 :: int] (- 2) 7) = None"
    by (rule conjunct1)
  from t have b: "list_getitem (snd (list_setitem [10, 20, 30 :: int] (- 2) 7)) (- 2) = Inr 7"
    by (rule conjunct1 [OF conjunct2])
  from t have "(- 2 :: int) < 0 \<longrightarrow>
      list_getitem [10, 20, 30 :: int] (- 2)
        = list_getitem [10, 20, 30] (- 2 + list_len [10, 20, 30 :: int])
      \<and> list_setitem [10, 20, 30 :: int] (- 2) 7
        = list_setitem [10, 20, 30] (- 2 + list_len [10, 20, 30 :: int]) 7"
    by (rule conjunct2 [OF conjunct2])
  then have c: "list_getitem [10, 20, 30 :: int] (- 2)
        = list_getitem [10, 20, 30] (- 2 + list_len [10, 20, 30 :: int])
      \<and> list_setitem [10, 20, 30 :: int] (- 2) 7
        = list_setitem [10, 20, 30] (- 2 + list_len [10, 20, 30 :: int]) 7"
    using neg by (rule mp)
  show ?thesis
    by (rule conjI [OF h conjI [OF a conjI [OF b c]]])
qed

subsection \<open>The full slice\<close>



subsection \<open>Extended slice assignment\<close>










lemma overwrite_Nil [simp]: "overwrite units [] vs = units" "overwrite units ps [] = units"
  by (simp_all add: overwrite_def)

lemma overwrite_Cons [simp]:
  "overwrite units (p # ps) (v # vs) = overwrite (units[nat p := v]) ps vs"
  by (simp add: overwrite_def)

lemma length_overwrite [simp]: "length (overwrite units ps vs) = length units"
proof (induction ps arbitrary: units vs)
  case Nil
  then show ?case by simp
next
  case (Cons p ps)
  then show ?case by (cases vs) simp_all
qed



lemma slicenr_range:
  assumes "\<not> (bit x 2 \<and> s = 0)" and "0 \<le> len"
  shows "\<exists>l' u'. slicenr x l u s len = Inr (l', u', if bit x 2 then s else 1)
     \<and> (0 < (if bit x 2 then s else 1) \<longrightarrow> 0 \<le> l' \<and> l' \<le> len \<and> 0 \<le> u' \<and> u' \<le> len)
     \<and> (\<not> 0 < (if bit x 2 then s else 1) \<longrightarrow> - 1 \<le> l' \<and> l' < len \<and> - 1 \<le> u' \<and> u' < len)"
  using assms unfolding slicenr_def clamp_def Let_def by (simp split: if_splits)















subsection \<open>Slice deletion\<close>

text \<open>
  For a step above 1 the loop of \<^verbatim>\<open>__delete__\<close> keeps exactly the positions outside the
  upward walk; for step 1 and a range that is not reversed, \<^verbatim>\<open>__delslice__\<close> erases
  the range.
\<close>

lemma delete_loop_filter:
  "delete_loop units l u s i v
     = v @ map ((!) units)
             (filter (\<lambda>i. int i < l \<or> u \<le> int i \<or> c_rem (int i - l) s \<noteq> 0)
                [i..<length units])"
proof (induction "length units - i" arbitrary: i v)
  case 0
  then show ?case by (subst delete_loop.simps) simp
next
  case (Suc n)
  from Suc.hyps(2) have lt: "i < length units" and n: "n = length units - Suc i" by simp_all
  from lt have upt: "[i..<length units] = i # [Suc i..<length units]"
    by (simp add: upt_conv_Cons)
  show ?case
    by (subst delete_loop.simps) (simp add: lt upt Suc.hyps(1) [OF n])
qed

lemma walk_up_set:
  "0 < s \<Longrightarrow> p \<in> set (walk_up i u s) \<longleftrightarrow> i \<le> p \<and> p < u \<and> (p - i) mod s = 0"
proof (induction i u s rule: walk_up.induct)
  case (1 i u s)
  show ?case
  proof (cases "i < u")
    case True
    with "1.prems" have w: "walk_up i u s = i # walk_up (i + s) u s"
      by (subst walk_up.simps) simp
    from True "1.prems" "1.IH"
    have ih: "p \<in> set (walk_up (i + s) u s) \<longleftrightarrow> i + s \<le> p \<and> p < u \<and> (p - (i + s)) mod s = 0"
      by simp
    have m: "(p - (i + s)) mod s = (p - i) mod s"
      by (simp add: diff_diff_eq [symmetric])
    have far: "i + s \<le> p" if "i \<le> p" "p \<noteq> i" "(p - i) mod s = 0"
    proof -
      from that have "0 < p - i" "s dvd p - i" by auto
      then have "s \<le> p - i" by (rule zdvd_imp_le [rotated])
      then show ?thesis by simp
    qed
    from True "1.prems" far show ?thesis
      unfolding w by (auto simp: ih m)
  next
    case False
    then show ?thesis by (subst walk_up.simps) auto
  qed
qed

lemma c_rem_nonneg: "0 \<le> a \<Longrightarrow> 0 < s \<Longrightarrow> c_rem a s = a mod s"
  by (cases "a = 0") (simp_all add: c_rem_def)

lemma delete_keep_iff:
  assumes "0 < s"
  shows "(int i < l \<or> u \<le> int i \<or> c_rem (int i - l) s \<noteq> 0) \<longleftrightarrow> int i \<notin> set (walk_up l u s)"
proof (cases "l \<le> int i")
  case True
  then show ?thesis using assms by (simp add: walk_up_set c_rem_nonneg) linarith
next
  case False
  then show ?thesis using assms by (simp add: walk_up_set)
qed

lemma delete_positive_step:
  assumes "bit x 2" and "1 < s"
  shows "\<exists>l' u'. slicenr x l u s (list_len units) = Inr (l', u', s)
     \<and> list_delete units x l u s
         = (None, map ((!) units)
                    (filter (\<lambda>i. int i \<notin> set (stride_walk l' u' s)) [0..<length units]))"
proof -
  from assms have "\<not> (bit x 2 \<and> s = 0)" and "0 \<le> list_len units"
    by (simp_all add: list_len_def)
  from slicenr_range [OF this, of l u] assms(1)
  obtain l' u' where nr: "slicenr x l u s (list_len units) = Inr (l', u', s)"
    by (elim exE conjE) simp
  from assms(2) have s: "0 < s" "s \<noteq> 1" by simp_all
  have "list_delete units x l u s = (None, delete_loop units l' u' s 0 [])"
    using nr s by (simp add: list_delete_def)
  also have "delete_loop units l' u' s 0 []
      = map ((!) units) (filter (\<lambda>i. int i \<notin> set (stride_walk l' u' s)) [0..<length units])"
    using s(1) by (simp add: delete_loop_filter delete_keep_iff stride_walk_def)
  finally show ?thesis using nr by blast
qed

lemma delete_step_one:
  assumes "slicenr x l u s (list_len units) = Inr (l', u', 1)"
    and "0 \<le> l'" and "l' \<le> u'" and "u' \<le> list_len units"
  shows "list_delete units x l u s = (None, take (nat l') units @ drop (nat u') units)"
  using assms by (simp add: list_delete_def list_delslice_def erase_def list_len_def)

text \<open>
  A reversed range with step 1 reaches \<^verbatim>\<open>erase\<close> with its first iterator behind the
  last one; \<^verbatim>\<open>__setslice__\<close> tests \<^verbatim>\<open>l <= u\<close> before it erases,
  \<^verbatim>\<open>__delslice__\<close> does not.
\<close>

lemma delete_reversed_range:
  "list_delete [10, 20, 30, 40, 50 :: int] 7 3 1 1 = (Some OutOfBounds, [10, 20, 30, 40, 50])"
  by (simp add: list_delete_def list_delslice_def erase_def slicenr_def clamp_def list_len_def
        bit_iff_odd)

text \<open>
  C3. \<^verbatim>\<open>__delete__\<close> on \<open>[10, 20, 30, 40, 50]\<close>. With start 1, stop 4, step 2 it
  removes the positions 1 and 3 of the walk. With start 3, stop 0, step \<open>- 1\<close> the walk
  visits 3, 2, 1, and the loop keeps every element: each index passes the test
  \<^verbatim>\<open>i >= u\<close>. With start 0, stop 3, step \<open>- 1\<close> the walk visits nothing, and the loop
  drops the positions 0, 1, 2.
\<close>

theorem delete_negative_step:
  "list_delete [10, 20, 30, 40, 50 :: int] 7 1 4 2 = (None, [10, 30, 50])
   \<and> slicenr 7 3 0 (- 1) (list_len [10, 20, 30, 40, 50 :: int]) = Inr (3, 0, - 1)
   \<and> stride_walk 3 0 (- 1) = [3, 2, 1]
   \<and> list_delete [10, 20, 30, 40, 50 :: int] 7 3 0 (- 1) = (None, [10, 20, 30, 40, 50])
   \<and> slicenr 7 0 3 (- 1) (list_len [10, 20, 30, 40, 50 :: int]) = Inr (0, 3, - 1)
   \<and> stride_walk 0 3 (- 1) = []
   \<and> list_delete [10, 20, 30, 40, 50 :: int] 7 0 3 (- 1) = (None, [40, 50])"
proof (intro conjI)
  show "list_delete [10, 20, 30, 40, 50 :: int] 7 1 4 2 = (None, [10, 30, 50])"
    by (simp add: list_delete_def slicenr_def clamp_def list_len_def c_rem_def bit_iff_odd
          delete_loop.simps)
  show "slicenr 7 3 0 (- 1) (list_len [10, 20, 30, 40, 50 :: int]) = Inr (3, 0, - 1)"
    by (simp add: slicenr_def clamp_def list_len_def bit_iff_odd)
  show "stride_walk 3 0 (- 1) = [3, 2, 1]"
    by (simp add: stride_walk_def walk_down.simps)
  show "list_delete [10, 20, 30, 40, 50 :: int] 7 3 0 (- 1) = (None, [10, 20, 30, 40, 50])"
    by (simp add: list_delete_def slicenr_def clamp_def list_len_def c_rem_def bit_iff_odd
          delete_loop.simps)
  show "slicenr 7 0 3 (- 1) (list_len [10, 20, 30, 40, 50 :: int]) = Inr (0, 3, - 1)"
    by (simp add: slicenr_def clamp_def list_len_def bit_iff_odd)
  show "stride_walk 0 3 (- 1) = []"
    by (simp add: stride_walk_def walk_down.simps)
  show "list_delete [10, 20, 30, 40, 50 :: int] 7 0 3 (- 1) = (None, [40, 50])"
    by (simp add: list_delete_def slicenr_def clamp_def list_len_def c_rem_def bit_iff_odd
          delete_loop.simps)
qed

subsection \<open>Sorting\<close>

text \<open>
  C2, as stated, fails: sorting by the key \<open>x div 100\<close> seventeen elements that share one
  key, \<^verbatim>\<open>sort\<close> may leave them in an order that is not the original one.
\<close>

theorem sort_not_stable_counterexample:
  "list_sort None (Some (\<lambda>x. x div 100)) 0
     [0, 1, 2, 3, 4, 5, 6, 7, 8, 9, 10, 11, 12, 13, 14, 15, 16 :: int]
     [8, 16, 15, 14, 13, 12, 11, 10, 9, 0, 7, 6, 5, 4, 3, 2, 1]
   \<and> \<not> stable_by (\<lambda>x. x div 100)
     [0, 1, 2, 3, 4, 5, 6, 7, 8, 9, 10, 11, 12, 13, 14, 15, 16 :: int]
     [8, 16, 15, 14, 13, 12, 11, 10, 9, 0, 7, 6, 5, 4, 3, 2, 1]"
  by (simp add: list_sort_def std_sort_def cpp_cmp_key_def stable_by_def)

lemma sorted_wrt_key: "sorted_wrt (\<lambda>a b. \<not> k b < k a) ys \<longleftrightarrow> sorted (map (k :: 'a \<Rightarrow> 'k::linorder) ys)"
  by (simp add: sorted_map not_less)

lemma sorted_wrt_key_rev:
  "sorted_wrt (\<lambda>a b. \<not> k a < k b) ys \<longleftrightarrow> sorted (rev (map (k :: 'a \<Rightarrow> 'k::linorder) ys))"
  by (simp add: not_less sorted_wrt_rev sorted_wrt_map rev_map [symmetric])

text \<open>
  The contract of \<^verbatim>\<open>std::sort\<close> can be met: under a key or the natural order, the
  sorted list (reversed under \<^verbatim>\<open>reverse\<close>) is a content that \<^verbatim>\<open>sort\<close> may leave.
\<close>

lemma sort_has_a_result:
  "\<exists>units'. list_sort None key reverse (units :: 'a::linorder list) units'"
proof (cases key)
  case None
  have "std_sort cpp_cmp units (sort units)"
    using sorted_wrt_key [of "\<lambda>x. x" "sort units"]
    by (simp add: std_sort_def cpp_cmp_def)
  moreover have "std_sort cpp_cmp_rev units (rev (sort units))"
    using sorted_wrt_key_rev [of "\<lambda>x. x" "rev (sort units)"]
    by (simp add: std_sort_def cpp_cmp_rev_def)
  ultimately show ?thesis using None by (cases "reverse = 0") (auto simp: list_sort_def)
next
  case (Some k)
  have "std_sort (cpp_cmp_key k) units (sort_key k units)"
    by (simp add: std_sort_def cpp_cmp_key_def sorted_wrt_key)
  moreover have "std_sort (cpp_cmp_key_rev k) units (rev (sort_key k units))"
    by (simp add: std_sort_def cpp_cmp_key_rev_def sorted_wrt_key_rev rev_map)
  ultimately show ?thesis using Some by (cases "reverse = 0") (auto simp: list_sort_def)
qed

text \<open>
  C2, amended. Whatever \<^verbatim>\<open>sort\<close> leaves in the list is a permutation of its contents,
  ordered by the active configuration: ascending keys (descending with \<^verbatim>\<open>reverse\<close>) under
  a key, no element ordered by the comparator before an earlier one under a comparator, and
  the natural order otherwise. The relative order of elements that compare equal is not
  fixed.
\<close>

theorem sort_permutes_and_orders:
  assumes "list_sort cmp key reverse units units'"
  shows "mset units' = mset units
       \<and> (case key of
            Some k \<Rightarrow>
              if reverse \<noteq> 0 then sorted (rev (map k units')) else sorted (map k units')
          | None \<Rightarrow>
              (case cmp of
                 Some c \<Rightarrow>
                   if reverse \<noteq> 0 then sorted_wrt (\<lambda>a b. \<not> 0 < c b a) units'
                   else sorted_wrt (\<lambda>a b. \<not> c b a < 0) units'
               | None \<Rightarrow>
                   if reverse \<noteq> 0 then sorted (rev units') else sorted units'))"
  using assms sorted_wrt_key [of "\<lambda>x. x" units'] sorted_wrt_key_rev [of "\<lambda>x. x" units']
  by (auto simp: list_sort_def std_sort_def cpp_cmp_def cpp_cmp_rev_def cpp_cmp_custom_def
        cpp_cmp_custom_rev_def cpp_cmp_key_def cpp_cmp_key_rev_def sorted_wrt_key
        sorted_wrt_key_rev split: option.splits if_splits)

theorem sort_permutes_and_orders_witness:
  "list_sort (None :: (int \<Rightarrow> int \<Rightarrow> int) option) (Some (\<lambda>x. x div 10)) 1
     [12, 31, 11 :: int] [31, 12, 11]
   \<and> mset [31, 12, 11 :: int] = mset [12, 31, 11]
   \<and> sorted (rev (map (\<lambda>x. x div 10) [31, 12, 11 :: int]))"
proof -
  have h: "list_sort (None :: (int \<Rightarrow> int \<Rightarrow> int) option) (Some (\<lambda>x. x div 10)) 1
     [12, 31, 11 :: int] [31, 12, 11]"
    by (simp add: list_sort_def std_sort_def cpp_cmp_key_rev_def)
  from sort_permutes_and_orders [OF h] have
    "mset [31, 12, 11 :: int] = mset [12, 31, 11]
     \<and> sorted (rev (map (\<lambda>x. x div 10) [31, 12, 11 :: int]))"
    by simp
  with h show ?thesis by (intro conjI) simp_all
qed


section \<open>Properties of the bytes methods\<close>

subsection \<open>The literal form\<close>

















subsection \<open>Hash and equality\<close>

lemma hash_inv_new: "hash_inv H (bytes_new fz)"
  and hash_inv_of_string: "hash_inv H (bytes_of_string fz s)"
  and hash_inv_copy: "hash_inv H (bytes_copy b fz)"
  by (simp_all add: hash_inv_def bytes_new_def bytes_of_string_def bytes_copy_def)

lemma hash_inv_hash: "hash_inv H b \<Longrightarrow> hash_inv H (snd (bytes_hash H b))"
  by (auto simp: hash_inv_def bytes_hash_def Let_def)

lemma hash_value: "hash_inv H b \<Longrightarrow> fst (bytes_hash H b) = H (c_str (unit b))"
  by (auto simp: hash_inv_def bytes_hash_def Let_def)






text \<open>
  C9. Two objects whose buffers agree up to and including their first NUL have the same
  hash, the hash of the common bytes before that NUL: whatever follows the NUL is not read.
\<close>

theorem hash_ignores_bytes_after_NUL:
  assumes "hash_inv H b" and "hash_inv H c"
    and "unit b = p @ NUL # r1" and "unit c = p @ NUL # r2" and "NUL \<notin> set p"
  shows "fst (bytes_hash H b) = H p \<and> fst (bytes_hash H c) = H p
       \<and> fst (bytes_hash H b) = fst (bytes_hash H c)"
proof -
  from assms(3,5) have "c_str (unit b) = p" by (auto simp: c_str_def takeWhile_tail)
  moreover from assms(4,5) have "c_str (unit c) = p" by (auto simp: c_str_def takeWhile_tail)
  ultimately show ?thesis
    using hash_value [OF assms(1)] hash_value [OF assms(2)] by simp
qed

theorem hash_ignores_bytes_after_NUL_witness:
  "hash_inv (\<lambda>s. of_nat (length s)) (bytes_of_string 0 (''ab'' @ NUL # ''x''))
   \<and> hash_inv (\<lambda>s. of_nat (length s)) (bytes_of_string 0 (''ab'' @ NUL # ''yz''))
   \<and> unit (bytes_of_string 0 (''ab'' @ NUL # ''x'')) = ''ab'' @ NUL # ''x''
   \<and> unit (bytes_of_string 0 (''ab'' @ NUL # ''yz'')) = ''ab'' @ NUL # ''yz''
   \<and> NUL \<notin> set ''ab''
   \<and> fst (bytes_hash (\<lambda>s. of_nat (length s)) (bytes_of_string 0 (''ab'' @ NUL # ''x''))) = 2
   \<and> fst (bytes_hash (\<lambda>s. of_nat (length s)) (bytes_of_string 0 (''ab'' @ NUL # ''yz''))) = 2"
proof -
  let ?H = "\<lambda>s. of_nat (length s) :: 64 word"
  let ?b = "bytes_of_string 0 (''ab'' @ NUL # ''x'')"
  let ?c = "bytes_of_string 0 (''ab'' @ NUL # ''yz'')"
  have 1: "hash_inv ?H ?b" and 2: "hash_inv ?H ?c"
    by (simp_all add: hash_inv_def bytes_of_string_def)
  have 3: "unit ?b = ''ab'' @ NUL # ''x''" and 4: "unit ?c = ''ab'' @ NUL # ''yz''"
    by (simp_all add: bytes_of_string_def)
  have 5: "NUL \<notin> set ''ab''" by simp
  from hash_ignores_bytes_after_NUL [OF 1 2 3 4 5] 1 2 3 4 5 show ?thesis
    by simp
qed

subsection \<open>Concatenation\<close>



section \<open>Properties of the CSV writer and reader\<close>







end
